theory Spec2Isabelle
  imports Complex_Main
begin

section \<open>The example script \<open>examples/train_from_scratch.py\<close>\<close>

text \<open>
  The script is glue code: it parses one command-line flag and then calls, in a fixed
  order, collaborators that live outside the file (the standard library's \<open>argparse\<close>
  and \<open>logging\<close>, the tokenizer library, and the training framework's data handling,
  modelling, optimisation and training modules). The development has three parts:
  \<^item> Python's \<open>int\<close> on strings and the part of \<open>argparse\<close> that \<open>parse_arguments\<close>
    uses (a parser with the built-in help action and options that store one integer);
  \<^item> the script itself, as the sequence of collaborator calls it issues, with the
    arguments it passes; what the collaborators return is a parameter;
  \<^item> the effect of running that sequence on the random number generators.
\<close>

subsection \<open>Python's \<open>int(s)\<close> and the decimal text of an integer\<close>

text \<open>
  Strings are lists of 8-bit characters (Latin-1); characters beyond that range, among
  them the other Unicode digits that \<open>int\<close> accepts, have no counterpart here.
  \<open>int(s)\<close> (CPython 3.11) strips white space at both ends, reads an optional sign, and
  then decimal digits in which single underscores may stand between two digits; anything
  else raises \<open>ValueError\<close>, here \<open>None\<close>. It also raises \<open>ValueError\<close> when the string has
  more digit characters than the limit on integer string conversion, leading zeros
  counted; the script leaves the limit at its default, 4300.
\<close>

definition max_str_digits :: nat where
  "max_str_digits = 4300"

definition is_space :: "char \<Rightarrow> bool" where
  "is_space c = ((of_char c :: nat) \<in> set [9, 10, 11, 12, 13, 32, 133, 160])"

definition is_digit :: "char \<Rightarrow> bool" where
  "is_digit c = (48 \<le> (of_char c :: nat) \<and> (of_char c :: nat) \<le> 57)"

definition digit_val :: "char \<Rightarrow> int" where
  "digit_val c = int (of_char c) - 48"

definition strip :: "string \<Rightarrow> string" where
  "strip s = rev (dropWhile is_space (rev (dropWhile is_space s)))"

text \<open>The flag says whether the previous character was a digit; \<open>acc\<close> is the value so far.\<close>

fun digits_value :: "bool \<Rightarrow> int \<Rightarrow> string \<Rightarrow> int option" where
  "digits_value prev acc [] = (if prev then Some acc else None)"
| "digits_value prev acc (c # cs) =
     (if is_digit c then digits_value True (acc * 10 + digit_val c) cs
      else if c = CHR ''_'' \<and> prev then digits_value False acc cs
      else None)"

definition py_int :: "string \<Rightarrow> int option" where
  "py_int s =
     (case strip s of
        [] \<Rightarrow> None
      | c # cs \<Rightarrow>
          if max_str_digits < length (filter is_digit (c # cs)) then None
          else if c = CHR ''-'' then map_option uminus (digits_value False 0 cs)
          else if c = CHR ''+'' then digits_value False 0 cs
          else digits_value False 0 (c # cs))"

text \<open>
  The decimal text of an integer, as one writes it on the command line: a minus sign for
  a negative value, then the decimal digits without leading zeros; \<open>num_digits\<close> is the
  number of its digits.
\<close>

definition digit_char :: "nat \<Rightarrow> char" where
  "digit_char d = char_of (48 + d)"

function dec :: "nat \<Rightarrow> string" where
  "dec n = (if n < 10 then [digit_char n] else dec (n div 10) @ [digit_char (n mod 10)])"
  by pat_completeness auto
termination
  by (relation "measure (\<lambda>n. n)") auto

declare dec.simps [simp del]

definition decimal_text :: "int \<Rightarrow> string" where
  "decimal_text v = (if v < 0 then CHR ''-'' # dec (nat (- v)) else dec (nat v))"

definition num_digits :: "int \<Rightarrow> nat" where
  "num_digits v = length (dec (nat \<bar>v\<bar>))"

subsection \<open>The part of \<open>argparse\<close> the script uses\<close>

text \<open>
  \<open>ArgumentParser()\<close> registers the help action under \<open>-h\<close> and \<open>--help\<close>;
  \<open>add_argument(flag, type=int, default=d)\<close> with one long option string registers a
  store action (one argument string, converted by \<open>int\<close>) whose destination is the flag
  without its leading dashes. The parser keeps the option strings in registration order.
  \<open>parse_args\<close> leaves by \<open>SystemExit\<close>: status 0 after printing the help, status 2 on
  a usage error (\<open>AttributeError\<close> is raised by reading a missing attribute of the parsed
  arguments, not by the parser). The functions below follow CPython 3.11's \<open>argparse\<close> for such a
  parser: no positional arguments, prefix character \<open>-\<close>, abbreviations allowed.
\<close>

datatype exn = SystemExit int | AttributeError string

datatype action = Help | Store string

type_synonym namespace = "string \<rightharpoonup> int"

record parser =
  option_string_actions :: "(string \<times> action) list"
  defaults :: namespace

definition ArgumentParser :: parser where
  "ArgumentParser =
     \<lparr>option_string_actions = [(''-h'', Help), (''--help'', Help)], defaults = Map.empty\<rparr>"

definition dest_of :: "string \<Rightarrow> string" where
  "dest_of flag =
     map (\<lambda>c. if c = CHR ''-'' then CHR ''_'' else c) (dropWhile (\<lambda>c. c = CHR ''-'') flag)"

text \<open>The help text only shows in the usage message; the model does not keep it.\<close>

definition add_argument :: "parser \<Rightarrow> string \<Rightarrow> int \<Rightarrow> string \<Rightarrow> parser" where
  "add_argument p flag dflt help_text =
     \<lparr>option_string_actions = option_string_actions p @ [(flag, Store (dest_of flag))],
      defaults = (case defaults p (dest_of flag) of
                    None \<Rightarrow> (defaults p)(dest_of flag \<mapsto> dflt)
                  | Some _ \<Rightarrow> defaults p)\<rparr>"

text \<open>
  Every argument string is classified first: an argument (\<open>A\<close> in argparse's pattern),
  the separator \<open>--\<close>, or an option with the action found for it (none for an unknown
  option), the option string, whether an \<open>=\<close> separated an explicit argument, and the
  explicit argument.
\<close>

datatype arg_class = Arg | Dashes | Opt "action option" string bool "string option"

definition startswith :: "string \<Rightarrow> string \<Rightarrow> bool" where
  "startswith s p = (take (length p) s = p)"

definition partition_eq :: "string \<Rightarrow> string \<times> bool \<times> string" where
  "partition_eq s =
     (let rest = dropWhile (\<lambda>c. c \<noteq> CHR ''='') s
      in (takeWhile (\<lambda>c. c \<noteq> CHR ''='') s, rest \<noteq> [], drop 1 rest))"

text \<open>
  The regular expression \<open>^-\d+$|^-\d*\.\d+$\<close>; \<open>$\<close> also matches before one final
  newline.
\<close>

definition negative_number_like :: "string \<Rightarrow> bool" where
  "negative_number_like t =
     (case (if t \<noteq> [] \<and> last t = CHR 0x0A then butlast t else t) of
        [] \<Rightarrow> False
      | c # b \<Rightarrow>
          c = CHR ''-'' \<and>
          (case dropWhile is_digit b of
             [] \<Rightarrow> b \<noteq> []
           | d # f \<Rightarrow> d = CHR ''.'' \<and> f \<noteq> [] \<and> list_all is_digit f))"

definition get_option_tuples ::
  "(string \<times> action) list \<Rightarrow> string \<Rightarrow> (action \<times> string \<times> bool \<times> string option) list" where
  "get_option_tuples table tok =
     (if take 2 tok = ''--'' then
        (case partition_eq tok of
           (option_prefix, sep, explicit_arg) \<Rightarrow>
             [(a, os, sep, if sep then Some explicit_arg else None).
                (os, a) \<leftarrow> table, startswith os option_prefix])
      else
        concat (map (\<lambda>(os, a).
          if os = take 2 tok then [(a, os, False, Some (drop 2 tok))]
          else if startswith os tok then [(a, os, False, None)]
          else []) table))"

definition parse_optional :: "(string \<times> action) list \<Rightarrow> string \<Rightarrow> exn + arg_class" where
  "parse_optional table tok =
     (case tok of
        [] \<Rightarrow> Inr Arg
      | c # _ \<Rightarrow>
          if c \<noteq> CHR ''-'' then Inr Arg
          else (case map_of table tok of
             Some a \<Rightarrow> Inr (Opt (Some a) tok False None)
           | None \<Rightarrow>
               if length tok = 1 then Inr Arg
               else (case partition_eq tok of
                 (os, sep, explicit_arg) \<Rightarrow>
                   if sep \<and> map_of table os \<noteq> None
                   then Inr (Opt (map_of table os) os True (Some explicit_arg))
                   else (case get_option_tuples table tok of
                      [] \<Rightarrow>
                        if negative_number_like tok then Inr Arg
                        else if CHR '' '' \<in> set tok then Inr Arg
                        else Inr (Opt None tok False None)
                    | [(a, os', sep', explicit')] \<Rightarrow> Inr (Opt (Some a) os' sep' explicit')
                    | _ \<Rightarrow> Inl (SystemExit 2)))))"

text \<open>After \<open>--\<close> every string is an argument.\<close>

fun classify :: "(string \<times> action) list \<Rightarrow> string list \<Rightarrow> exn + arg_class list" where
  "classify table [] = Inr []"
| "classify table (tok # rest) =
     (if tok = ''--'' then Inr (Dashes # map (\<lambda>_. Arg) rest)
      else (case parse_optional table tok of
         Inl e \<Rightarrow> Inl e
       | Inr c \<Rightarrow>
           (case classify table rest of
              Inl e \<Rightarrow> Inl e
            | Inr cs \<Rightarrow> Inr (c # cs))))"

text \<open>
  How many of the following strings an action takes: the help action matches the pattern
  \<open>(-*-*)\<close>, a store action \<open>(-*A-*)\<close>; no match is the usage error
  ``expected one argument''.
\<close>

definition count_dashes :: "arg_class list \<Rightarrow> nat" where
  "count_dashes cs = length (takeWhile (\<lambda>c. c = Dashes) cs)"

definition match_argument :: "action \<Rightarrow> arg_class list \<Rightarrow> exn + nat" where
  "match_argument act cs =
     (let k = count_dashes cs in
      case act of
        Help \<Rightarrow> Inr k
      | Store _ \<Rightarrow>
          (case drop k cs of
             Arg # r \<Rightarrow> Inr (k + 1 + count_dashes r)
           | _ \<Rightarrow> Inl (SystemExit 2)))"

definition nargs :: "action \<Rightarrow> nat" where
  "nargs act = (case act of Help \<Rightarrow> 0 | Store _ \<Rightarrow> 1)"

definition single_dash :: "string \<Rightarrow> bool" where
  "single_dash os = (case os of _ # c # _ \<Rightarrow> c \<noteq> CHR ''-'' | _ \<Rightarrow> False)"

text \<open>
  The loop of \<open>consume_optional\<close>: with an explicit argument, a single-dash option that
  takes no argument passes the rest of the string on as further single-dash options. The
  result is the actions to take with their argument strings, whether a string went to the
  unrecognised extras, and how many of the following strings were taken.
\<close>

fun optional_loop ::
  "(string \<times> action) list \<Rightarrow> action \<Rightarrow> string \<Rightarrow> bool \<Rightarrow> string option \<Rightarrow> string list \<Rightarrow>
   arg_class list \<Rightarrow> (action \<times> string list) list \<Rightarrow>
   exn + ((action \<times> string list) list \<times> bool \<times> nat)" where
  "optional_loop table act os sep None toks cs acc =
     (case match_argument act cs of
        Inl e \<Rightarrow> Inl e
      | Inr n \<Rightarrow> Inr (acc @ [(act, take n toks)], False, n))"
| "optional_loop table act os sep (Some []) toks cs acc =
     (if nargs act = 1 then Inr (acc @ [(act, [[]])], False, 0) else Inl (SystemExit 2))"
| "optional_loop table act os sep (Some (x # e)) toks cs acc =
     (if nargs act = 0 \<and> single_dash os then
        (if sep \<or> x = CHR ''-'' then Inl (SystemExit 2)
         else (case map_of table [CHR ''-'', x] of
            None \<Rightarrow> Inr (acc @ [(act, [])], True, 0)
          | Some act' \<Rightarrow>
              (case e of
                 [] \<Rightarrow> optional_loop table act' [CHR ''-'', x] False None toks cs (acc @ [(act, [])])
               | c # e' \<Rightarrow>
                   if c = CHR ''=''
                   then optional_loop table act' [CHR ''-'', x] True (Some e') toks cs
                          (acc @ [(act, [])])
                   else optional_loop table act' [CHR ''-'', x] False (Some (c # e')) toks cs
                          (acc @ [(act, [])]))))
      else if nargs act = 1 then Inr (acc @ [(act, [x # e])], False, 0)
      else Inl (SystemExit 2))"

text \<open>
  The help action prints and exits with status 0. A store action converts its one
  argument string; with more strings one of them is \<open>--\<close>, on which \<open>int\<close> raises.
\<close>

definition take_action :: "namespace \<Rightarrow> action \<Rightarrow> string list \<Rightarrow> exn + namespace" where
  "take_action ns act args =
     (case act of
        Help \<Rightarrow> Inl (SystemExit 0)
      | Store dest \<Rightarrow>
          (case args of
             [a] \<Rightarrow>
               (case py_int a of
                  None \<Rightarrow> Inl (SystemExit 2)
                | Some v \<Rightarrow> Inr (ns(dest \<mapsto> v)))
           | _ \<Rightarrow> Inl (SystemExit 2)))"

fun take_actions :: "namespace \<Rightarrow> (action \<times> string list) list \<Rightarrow> exn + namespace" where
  "take_actions ns [] = Inr ns"
| "take_actions ns ((act, args) # ts) =
     (case take_action ns act args of
        Inl e \<Rightarrow> Inl e
      | Inr ns' \<Rightarrow> take_actions ns' ts)"

text \<open>
  The main loop, over the argument strings paired with their classes. Without positional
  arguments every string that is not an option or an option's argument is an extra, and
  \<open>parse_args\<close> ends in the usage error ``unrecognized arguments'' if there is one.
\<close>

function consume ::
  "(string \<times> action) list \<Rightarrow> (string \<times> arg_class) list \<Rightarrow> namespace \<Rightarrow> bool \<Rightarrow> exn + namespace" where
  "consume table [] ns extras = (if extras then Inl (SystemExit 2) else Inr ns)"
| "consume table ((tok, c) # rest) ns extras =
     (case c of
        Opt (Some act) os sep explicit_arg \<Rightarrow>
          (case optional_loop table act os sep explicit_arg (map fst rest) (map snd rest) [] of
             Inl e \<Rightarrow> Inl e
           | Inr (tuples, extra, n) \<Rightarrow>
               (case take_actions ns tuples of
                  Inl e \<Rightarrow> Inl e
                | Inr ns' \<Rightarrow> consume table (drop n rest) ns' (extras \<or> extra)))
      | _ \<Rightarrow> consume table rest ns True)"
  by pat_completeness auto
termination
  by (relation "measure (\<lambda>(table, items, ns, extras). length items)") auto

definition parse_args :: "parser \<Rightarrow> string list \<Rightarrow> exn + namespace" where
  "parse_args p argv =
     (case classify (option_string_actions p) argv of
        Inl e \<Rightarrow> Inl e
      | Inr cs \<Rightarrow> consume (option_string_actions p) (zip argv cs) (defaults p) False)"

text \<open>\<open>parse_arguments\<close> of the script; \<open>argv\<close> is \<open>sys.argv[1:]\<close>.\<close>

definition parse_arguments :: "string list \<Rightarrow> exn + namespace" where
  "parse_arguments argv =
     (let parser = ArgumentParser;
          parser = add_argument parser ''--local_rank'' (- 1)
                     ''local_rank for distributed training on gpus''
      in parse_args parser argv)"

text \<open>
  Two predicates for reasoning about the parser: the options found by the classification
  carry actions with a given property, and an action is the help action or stores into
  \<open>local_rank\<close>.
\<close>

definition known_options :: "(action \<Rightarrow> bool) \<Rightarrow> arg_class list \<Rightarrow> bool" where
  "known_options K cs =
     list_all (\<lambda>c. case c of Opt (Some a) _ _ _ \<Rightarrow> K a | _ \<Rightarrow> True) cs"

definition stores_local_rank :: "action \<Rightarrow> bool" where
  "stores_local_rank a = (case a of Help \<Rightarrow> True | Store dest \<Rightarrow> dest = ''local_rank'')"

subsection \<open>The objects the script builds\<close>

text \<open>
  An object built by a constructor of a collaborator is the record of the arguments the
  script passes; a path is its string, \<open>/\<close> joins a directory and a file name. Objects
  that a collaborator returns from a function (the device, and the model, optimizer and
  schedule that come back from \<open>initialize_optimizer\<close>) are opaque values of type \<open>'obj\<close>.
  Decimal literals are kept as the numbers written.
\<close>

type_synonym path = string

definition path_div :: "path \<Rightarrow> string \<Rightarrow> path" where
  "path_div d f = d @ ''/'' @ f"

record tokenizer =
  tok_vocab_file :: path
  tok_do_lower_case :: bool

record processor =
  proc_data_dir :: path
  proc_tokenizer :: tokenizer
  proc_max_seq_len :: nat
  proc_train_filename :: string
  proc_dev_filename :: "string option"
  proc_test_filename :: "string option"

record data_silo =
  silo_processor :: processor
  silo_batch_size :: nat
  silo_distributed :: bool

record language_model =
  lm_name :: string
  lm_vocab_size :: nat

datatype prediction_head =
    BertLMHead (hidden_size: nat) (vocab_size: nat)
  | NextSentenceHead (layer_dims: "nat list") (task_name: string)

record 'obj adaptive_model =
  am_language_model :: language_model
  am_prediction_heads :: "prediction_head list"
  am_embeds_dropout_prob :: real
  am_lm_output_types :: "string list"
  am_device :: 'obj

datatype opt_value = Str string | Num real

record 'obj optimizer_args =
  oa_model :: "'obj adaptive_model"
  oa_learning_rate :: real
  oa_schedule_opts :: "(string \<times> opt_value) list"
  oa_n_batches :: nat
  oa_n_epochs :: nat
  oa_device :: 'obj
  oa_grad_acc_steps :: nat
  oa_distributed :: bool
  oa_use_amp :: "string option"
  oa_local_rank :: int

record 'obj trainer =
  tr_model :: 'obj
  tr_optimizer :: 'obj
  tr_data_silo :: data_silo
  tr_epochs :: nat
  tr_n_gpu :: nat
  tr_lr_schedule :: 'obj
  tr_evaluate_every :: nat
  tr_device :: 'obj
  tr_grad_acc_steps :: nat
  tr_checkpoint_every :: "nat option"
  tr_checkpoint_root_dir :: "path option"
  tr_use_amp :: "string option"

subsection \<open>The calls the script issues\<close>

text \<open>One constructor for each collaborator call of the script, with the arguments passed.\<close>

datatype 'obj call =
    Basic_config string string nat
  | MLFlowLogger string
  | Init_experiment string string
  | Set_all_seeds int
  | Initialize_device_settings bool namespace "string option"
  | BertTokenizer tokenizer
  | BertStyleLMProcessor processor
  | StreamingDataSilo data_silo
  | LanguageModel_from_scratch language_model
  | Prediction_head prediction_head
  | AdaptiveModel "'obj adaptive_model"
  | Get_data_loader data_silo string
  | Initialize_optimizer "'obj optimizer_args"
  | Trainer_create_or_load_checkpoint "'obj trainer"
  | Trainer_train "'obj trainer"
  | Model_save 'obj path
  | Processor_save processor path

text \<open>
  What the collaborators give back to the script, and what running a call does, are
  parameters of the model:
  \<^item> \<open>device_settings\<close>: the device and the number of GPUs that
    \<open>initialize_device_settings\<close> returns;
  \<^item> \<open>tokenizer_vocab_size\<close>: the tokenizer's \<open>vocab_size\<close>, which depends on the
    vocabulary file;
  \<^item> \<open>loader_len\<close>: \<open>len\<close> of the data loader of a data silo;
  \<^item> \<open>optimizer_init\<close>: the model, optimizer and schedule that
    \<open>initialize_optimizer\<close> returns;
  \<^item> \<open>raises\<close>: whether a call fails, which aborts the script;
  \<^item> \<open>seed_generators\<close>, \<open>draws\<close>, \<open>initial_parameters\<close>: the state of the random number
    generators after seeding, how a call advances it, and the parameters a constructing
    call initialises in a given state.
\<close>

record ('obj, 'g) collaborators =
  device_settings :: "bool \<Rightarrow> namespace \<Rightarrow> string option \<Rightarrow> 'obj \<times> nat"
  tokenizer_vocab_size :: "tokenizer \<Rightarrow> nat"
  loader_len :: "data_silo \<Rightarrow> string \<Rightarrow> nat"
  optimizer_init :: "'obj optimizer_args \<Rightarrow> 'obj \<times> 'obj \<times> 'obj"
  raises :: "'obj call \<Rightarrow> bool"
  seed_generators :: "int \<Rightarrow> 'g"
  draws :: "'obj call \<Rightarrow> 'g \<Rightarrow> 'g"
  initial_parameters :: "'obj call \<Rightarrow> 'g \<Rightarrow> 'obj"

definition INFO :: nat where
  "INFO = 20"

subsection \<open>\<open>train_from_scratch\<close>\<close>

text \<open>
  The script binds its local variables in order and issues its calls in order; the
  result is the list of calls, or the exception that ends the script before any call.
  Reading \<open>args.local_rank\<close> raises \<open>AttributeError\<close> when the attribute is missing;
  the model reads it once, ahead of the calls (the parsed arguments always have it, see
  \<open>train_from_scratch_calls\<close> below).
  The script binds \<open>model\<close> a second time to what \<open>initialize_optimizer\<close> returns; that
  second binding is \<open>model'\<close>.
\<close>

definition train_from_scratch ::
  "('obj, 'g) collaborators \<Rightarrow> string list \<Rightarrow> exn + 'obj call list" where
  "train_from_scratch E argv =
     (case parse_arguments argv of
        Inl e \<Rightarrow> Inl e
      | Inr args \<Rightarrow>
         (case args ''local_rank'' of
            None \<Rightarrow> Inl (AttributeError ''local_rank'')
          | Some args_local_rank \<Rightarrow>
    (let use_amp = None;
         (device, n_gpu) = device_settings E True args use_amp;
         evaluate_every = 10000;
         save_dir = ''saved_models/train_from_scratch'';
         data_dir = ''data/lm_finetune_nips'';
         train_filename = ''train.txt'';
         max_seq_len = 128;
         batch_size = 60;
         grad_acc = 4;
         learning_rate = 0.0001;
         warmup_proportion = 0.01;
         n_epochs = 1;
         vocab_file = ''bert-base-uncased-vocab.txt'';
         tokenizer = \<lparr>tok_vocab_file = path_div data_dir vocab_file, tok_do_lower_case = True\<rparr>;
         processor = \<lparr>proc_data_dir = data_dir, proc_tokenizer = tokenizer,
           proc_max_seq_len = max_seq_len, proc_train_filename = train_filename,
           proc_dev_filename = None, proc_test_filename = None\<rparr>;
         stream_data_silo = \<lparr>silo_processor = processor, silo_batch_size = batch_size,
           silo_distributed = True\<rparr>;
         language_model = \<lparr>lm_name = ''bert'', lm_vocab_size = tokenizer_vocab_size E tokenizer\<rparr>;
         lm_prediction_head = BertLMHead 768 (tokenizer_vocab_size E tokenizer);
         next_sentence_head = NextSentenceHead [768, 2] ''nextsentence'';
         model = \<lparr>am_language_model = language_model,
           am_prediction_heads = [lm_prediction_head, next_sentence_head],
           am_embeds_dropout_prob = 0.1,
           am_lm_output_types = [''per_token'', ''per_sequence''],
           am_device = device\<rparr>;
         optimizer_args = \<lparr>oa_model = model, oa_learning_rate = learning_rate,
           oa_schedule_opts =
             [(''name'', Str ''LinearWarmup''), (''warmup_proportion'', Num warmup_proportion)],
           oa_n_batches = loader_len E stream_data_silo ''train'',
           oa_n_epochs = n_epochs, oa_device = device, oa_grad_acc_steps = grad_acc,
           oa_distributed = True, oa_use_amp = use_amp, oa_local_rank = args_local_rank\<rparr>;
         (model', optimizer, lr_schedule) = optimizer_init E optimizer_args;
         checkpoint_every = None;
         checkpoint_root_dir = None;
         trainer = \<lparr>tr_model = model', tr_optimizer = optimizer,
           tr_data_silo = stream_data_silo, tr_epochs = n_epochs, tr_n_gpu = n_gpu,
           tr_lr_schedule = lr_schedule, tr_evaluate_every = evaluate_every,
           tr_device = device, tr_grad_acc_steps = grad_acc,
           tr_checkpoint_every = checkpoint_every,
           tr_checkpoint_root_dir = checkpoint_root_dir, tr_use_amp = use_amp\<rparr>
     in Inr
       [Basic_config ''%(asctime)s - %(levelname)s - %(name)s -   %(message)s''
          ''%m/%d/%Y %H:%M:%S'' INFO,
        MLFlowLogger [],
        Init_experiment ''train_from_scratch'' ''run'',
        Set_all_seeds 39,
        Initialize_device_settings True args use_amp,
        BertTokenizer tokenizer,
        BertStyleLMProcessor processor,
        StreamingDataSilo stream_data_silo,
        LanguageModel_from_scratch language_model,
        Prediction_head lm_prediction_head,
        Prediction_head next_sentence_head,
        AdaptiveModel model,
        Get_data_loader stream_data_silo ''train'',
        Initialize_optimizer optimizer_args,
        Trainer_create_or_load_checkpoint trainer,
        Trainer_train trainer,
        Model_save model' save_dir,
        Processor_save processor save_dir])))"

subsection \<open>Running the calls\<close>

text \<open>
  The state of a run: the state of the random number generators, the calls completed so
  far, and the parameters that the constructing calls have initialised.
\<close>

record ('obj, 'g) world =
  rng :: 'g
  completed :: "'obj call list"
  parameters :: "'obj list"

text \<open>The calls that build a part of the model and so initialise parameters.\<close>

definition constructs_parameters :: "'obj call \<Rightarrow> bool" where
  "constructs_parameters c =
     (case c of
        LanguageModel_from_scratch _ \<Rightarrow> True
      | Prediction_head _ \<Rightarrow> True
      | AdaptiveModel _ \<Rightarrow> True
      | _ \<Rightarrow> False)"

text \<open>
  Modelled from the spec: \<open>set_all_seeds\<close> belongs to the training framework's utilities,
  which are not part of the script. The spec says that it seeds all random number
  generators: after the call their state is the one the seed determines, whatever it was
  before.
\<close>

definition set_all_seeds :: "('obj, 'g) collaborators \<Rightarrow> int \<Rightarrow> 'g \<Rightarrow> 'g" where
  "set_all_seeds E seed g = seed_generators E seed"

definition perform ::
  "('obj, 'g) collaborators \<Rightarrow> 'obj call \<Rightarrow> ('obj, 'g) world \<Rightarrow> ('obj, 'g) world" where
  "perform E c w =
     \<lparr>rng = (case c of
               Set_all_seeds seed \<Rightarrow> set_all_seeds E seed (rng w)
             | _ \<Rightarrow> draws E c (rng w)),
      completed = completed w @ [c],
      parameters = (if constructs_parameters c
                    then parameters w @ [initial_parameters E c (rng w)]
                    else parameters w)\<rparr>"

text \<open>
  Calls run in order; a call that raises aborts the script. The result is the failing
  call, if any, and the state reached.
\<close>

fun execute ::
  "('obj, 'g) collaborators \<Rightarrow> 'obj call list \<Rightarrow> ('obj, 'g) world \<Rightarrow>
   'obj call option \<times> ('obj, 'g) world" where
  "execute E [] w = (None, w)"
| "execute E (c # cs) w =
     (if raises E c then (Some c, w) else execute E cs (perform E c w))"

definition run ::
  "('obj, 'g) collaborators \<Rightarrow> string list \<Rightarrow> 'g \<Rightarrow>
   exn + ('obj call option \<times> ('obj, 'g) world)" where
  "run E argv g =
     (case train_from_scratch E argv of
        Inl e \<Rightarrow> Inl e
      | Inr cs \<Rightarrow> Inr (execute E cs \<lparr>rng = g, completed = [], parameters = []\<rparr>))"

text \<open>The parameters the model starts training with; none if the script ends in an exception.\<close>

definition initial_model_parameters ::
  "('obj, 'g) collaborators \<Rightarrow> string list \<Rightarrow> 'g \<Rightarrow> 'obj list" where
  "initial_model_parameters E argv g =
     (case run E argv g of
        Inl e \<Rightarrow> []
      | Inr (failed, w) \<Rightarrow> parameters w)"

subsection \<open>Kinds of calls\<close>

text \<open>The calls that write to the save directory.\<close>

definition is_save :: "'obj call \<Rightarrow> bool" where
  "is_save c =
     (case c of
        Model_save _ _ \<Rightarrow> True
      | Processor_save _ _ \<Rightarrow> True
      | _ \<Rightarrow> False)"




text \<open>The \<open>use_amp\<close> argument of a call that has one.\<close>

definition use_amp_of :: "'obj call \<Rightarrow> string option option" where
  "use_amp_of c =
     (case c of
        Initialize_device_settings _ _ amp \<Rightarrow> Some amp
      | Initialize_optimizer oa \<Rightarrow> Some (oa_use_amp oa)
      | Trainer_create_or_load_checkpoint tr \<Rightarrow> Some (tr_use_amp tr)
      | _ \<Rightarrow> None)"

subsection \<open>The step count of the spec\<close>

text \<open>
  Modelled from the spec: the length of the training data loader and the step count are
  computed inside the training framework (the streaming data silo and
  \<open>initialize_optimizer\<close>), which are not part of the script. The spec gives the number of
  batches as \<open>ceil(dataset_size / (batch_size \<times> world_size))\<close>; Python raises on a division
  by zero, here \<open>None\<close>.
\<close>

definition spec_n_batches :: "nat \<Rightarrow> nat \<Rightarrow> nat \<Rightarrow> nat option" where
  "spec_n_batches dataset_size batch_size world_size =
     (if batch_size * world_size = 0 then None
      else Some ((dataset_size + batch_size * world_size - 1) div (batch_size * world_size)))"

text \<open>
  Modelled from the spec: the total optimizer step count is the number of batches times
  the epochs, divided by the gradient accumulation steps and rounded down to an integer.
\<close>

definition spec_optimizer_steps :: "nat \<Rightarrow> nat \<Rightarrow> nat \<Rightarrow> nat option" where
  "spec_optimizer_steps n_batches n_epochs grad_acc_steps =
     (if grad_acc_steps = 0 then None
      else Some (n_batches * n_epochs div grad_acc_steps))"

subsection \<open>An instance of the collaborators\<close>

text \<open>
  Collaborators for concrete runs: one device and one GPU whatever the arguments, a
  vocabulary of 30522 entries, a corpus of 6000 samples shared by two processes, no call
  that fails, and generators whose state is a counter.
\<close>

definition example_collaborators :: "(nat, nat) collaborators" where
  "example_collaborators =
     \<lparr>device_settings = (\<lambda>use_cuda args amp. (0, 1)),
      tokenizer_vocab_size = (\<lambda>t. 30522),
      loader_len = (\<lambda>s name. (6000 + silo_batch_size s * 2 - 1) div (silo_batch_size s * 2)),
      optimizer_init = (\<lambda>oa. (1, 2, 3)),
      raises = (\<lambda>c. False),
      seed_generators = (\<lambda>seed. nat \<bar>seed\<bar>),
      draws = (\<lambda>c g. g + 1),
      initial_parameters = (\<lambda>c g. g)\<rparr>"

section \<open>Properties\<close>

subsection \<open>\<open>int\<close> reads back the decimal text\<close>

lemma is_digit_digit_char: "d < 10 \<Longrightarrow> is_digit (digit_char d)"
  by (simp add: is_digit_def digit_char_def)

lemma digit_val_digit_char: "d < 10 \<Longrightarrow> digit_val (digit_char d) = int d"
  by (simp add: digit_val_def digit_char_def)

lemma dec_nonempty: "dec n \<noteq> []"
  by (subst dec.simps) simp

lemma dec_digits: "list_all is_digit (dec n)"
proof (induction n rule: dec.induct)
  case (1 n)
  show ?case
  proof (cases "n < 10")
    case True
    then show ?thesis by (subst dec.simps) (simp add: is_digit_digit_char)
  next
    case False
    with 1 show ?thesis by (subst dec.simps) (simp add: is_digit_digit_char)
  qed
qed

lemma digits_value_dec:
  "digits_value p acc (dec n @ ys) = digits_value True (acc * 10 ^ length (dec n) + int n) ys"
proof (induction n arbitrary: p acc ys rule: dec.induct)
  case (1 n)
  show ?case
  proof (cases "n < 10")
    case True
    then show ?thesis
      by (subst (1 2) dec.simps) (simp add: is_digit_digit_char digit_val_digit_char)
  next
    case False
    have m: "n mod 10 < 10" by simp
    have "digits_value p acc (dec n @ ys) =
          digits_value p acc (dec (n div 10) @ (digit_char (n mod 10) # ys))"
      using False by (subst dec.simps) simp
    also have "\<dots> = digits_value True (acc * 10 ^ length (dec (n div 10)) + int (n div 10))
                      (digit_char (n mod 10) # ys)"
      using 1 [OF False] by simp
    also have "\<dots> = digits_value True
        ((acc * 10 ^ length (dec (n div 10)) + int (n div 10)) * 10 + int (n mod 10)) ys"
      using m by (simp add: is_digit_digit_char digit_val_digit_char)
    also have "(acc * 10 ^ length (dec (n div 10)) + int (n div 10)) * 10 + int (n mod 10)
        = acc * 10 ^ length (dec n) + int n"
    proof -
      have "length (dec n) = Suc (length (dec (n div 10)))"
        using False by (subst dec.simps) simp
      moreover have "int (n div 10) * 10 + int (n mod 10) = int n"
        by (simp add: zdiv_int zmod_int)
      ultimately show ?thesis by (simp add: algebra_simps)
    qed
    finally show ?thesis .
  qed
qed

lemma digits_value_dec0: "digits_value False 0 (dec n) = Some (int n)"
  using digits_value_dec [of False 0 n "[]"] by simp

lemma not_space_digit: "is_digit c \<Longrightarrow> \<not> is_space c"
  by (auto simp: is_digit_def is_space_def)

lemma strip_id:
  assumes "s \<noteq> []" "\<not> is_space (hd s)" "\<not> is_space (last s)"
  shows "strip s = s"
proof -
  from assms have 1: "dropWhile is_space s = s" by (cases s) auto
  from assms have "rev s \<noteq> []" "\<not> is_space (hd (rev s))" by (auto simp: hd_rev)
  then have 2: "dropWhile is_space (rev s) = rev s" by (cases "rev s") auto
  show ?thesis by (simp add: strip_def 1 2)
qed

lemma dec_hd_digit: "is_digit (hd (dec n))"
  using dec_digits [of n] dec_nonempty [of n] by (cases "dec n") auto

lemma dec_last_digit: "is_digit (last (dec n))"
  using dec_digits [of n] dec_nonempty [of n]
  by (metis last_in_set list_all_iff)

lemma minus_not_space: "\<not> is_space CHR ''-''"
  by (simp add: is_space_def)

lemma strip_decimal_text: "strip (decimal_text v) = decimal_text v"
  by (rule strip_id)
     (auto simp: decimal_text_def dec_nonempty dec_hd_digit dec_last_digit not_space_digit minus_not_space)

lemma digit_not_sign: "is_digit c \<Longrightarrow> c \<noteq> CHR ''-'' \<and> c \<noteq> CHR ''+''"
  by (auto simp: is_digit_def)

lemma filter_is_digit_dec: "filter is_digit (dec n) = dec n"
  using dec_digits [of n] by (simp add: list_all_iff)

lemma minus_not_digit: "\<not> is_digit CHR ''-''"
  by (simp add: is_digit_def)

lemma digits_decimal_text: "length (filter is_digit (decimal_text v)) = num_digits v"
  by (simp add: decimal_text_def num_digits_def filter_is_digit_dec minus_not_digit)

lemma py_int_decimal_text:
  assumes "num_digits v \<le> max_str_digits"
  shows "py_int (decimal_text v) = Some v"
proof -
  obtain c cs where t: "decimal_text v = c # cs"
    by (cases "decimal_text v") (auto simp: decimal_text_def dec_nonempty split: if_splits)
  have lim: "\<not> max_str_digits < length (filter is_digit (c # cs))"
    using assms digits_decimal_text [of v] t by simp
  have 1: "py_int (decimal_text v) =
      (if c = CHR ''-'' then map_option uminus (digits_value False 0 cs)
       else if c = CHR ''+'' then digits_value False 0 cs
       else digits_value False 0 (c # cs))"
  proof -
    have st: "strip (c # cs) = c # cs" using strip_decimal_text [of v] t by simp
    show ?thesis unfolding py_int_def t st using lim by (simp del: filter.simps)
  qed
  show ?thesis
  proof (cases "v < 0")
    case True
    with t have "c = CHR ''-''" "cs = dec (nat (- v))" by (simp_all add: decimal_text_def)
    with 1 True show ?thesis by (simp add: digits_value_dec0)
  next
    case False
    with t have d: "dec (nat v) = c # cs" by (simp add: decimal_text_def)
    then have "is_digit c" using dec_hd_digit [of "nat v"] by simp
    then have "c \<noteq> CHR ''-''" "c \<noteq> CHR ''+''" using digit_not_sign by auto
    with 1 have "py_int (decimal_text v) = digits_value False 0 (dec (nat v))"
      using d by simp
    then show ?thesis using False by (simp add: digits_value_dec0)
  qed
qed

text \<open>One digit for each power of ten: the limit admits exactly the values below \<open>10\<^sup>4\<^sup>3\<^sup>0\<^sup>0\<close>.\<close>

lemma length_dec_le: "0 < k \<Longrightarrow> length (dec n) \<le> k \<longleftrightarrow> n < 10 ^ k"
proof (induction n arbitrary: k rule: dec.induct)
  case (1 n)
  show ?case
  proof (cases "n < 10")
    case True
    have "(10::nat) ^ 1 \<le> 10 ^ k" using "1.prems" by (intro power_increasing) simp_all
    then have "n < 10 ^ k" using True by simp
    moreover have "length (dec n) = 1" using True by (subst dec.simps) simp
    ultimately show ?thesis using "1.prems" by simp
  next
    case False
    have len: "length (dec n) = Suc (length (dec (n div 10)))"
      using False by (subst dec.simps) simp
    show ?thesis
    proof (cases k)
      case 0
      with "1.prems" show ?thesis by simp
    next
      case (Suc j)
      show ?thesis
      proof (cases "j = 0")
        case True
        then show ?thesis using Suc False len dec_nonempty [of "n div 10"]
          by (cases "dec (n div 10)") auto
      next
        case j: False
        then have "length (dec (n div 10)) \<le> j \<longleftrightarrow> n div 10 < 10 ^ j"
          using "1.IH" [OF False, of j] by simp
        moreover have "n div 10 < 10 ^ j \<longleftrightarrow> n < 10 ^ Suc j"
          by (simp add: div_less_iff_less_mult mult.commute)
        ultimately show ?thesis using Suc len by simp
      qed
    qed
  qed
qed

lemma num_digits_limit: "num_digits v \<le> max_str_digits \<longleftrightarrow> \<bar>v\<bar> < 10 ^ 4300"
proof -
  have "num_digits v \<le> max_str_digits \<longleftrightarrow> nat \<bar>v\<bar> < 10 ^ 4300"
    unfolding num_digits_def max_str_digits_def by (rule length_dec_le) simp
  also have "\<dots> \<longleftrightarrow> \<bar>v\<bar> < 10 ^ 4300"
  proof -
    have "int (nat \<bar>v\<bar>) = \<bar>v\<bar>" by simp
    moreover have "int ((10::nat) ^ 4300) = 10 ^ 4300" by (simp only: of_nat_power of_nat_numeral)
    ultimately show ?thesis by (metis of_nat_less_iff)
  qed
  finally show ?thesis .
qed

subsection \<open>The command line\<close>

lemma script_parser:
  "add_argument ArgumentParser ''--local_rank'' (- 1) ''local_rank for distributed training on gpus'' =
     \<lparr>option_string_actions =
        [(''-h'', Help), (''--help'', Help), (''--local_rank'', Store ''local_rank'')],
      defaults = [''local_rank'' \<mapsto> - 1]\<rparr>"
  by (simp add: add_argument_def ArgumentParser_def dest_of_def)

lemma parse_arguments_empty: "parse_arguments [] = Inr [''local_rank'' \<mapsto> - 1]"
  by (simp add: parse_arguments_def script_parser parse_args_def)

lemma digit_not_letters:
  "is_digit c \<Longrightarrow> c \<noteq> CHR ''h'' \<and> c \<noteq> CHR ''-'' \<and> c \<noteq> CHR ''='' \<and> c \<noteq> CHR 0x0A"
  by (auto simp: is_digit_def)

lemma dropWhile_digits_dec: "dropWhile is_digit (dec n) = []"
  using dec_digits [of n] by (simp add: list_all_iff)

lemma negative_number_like_dec: "negative_number_like (CHR ''-'' # dec n)"
proof -
  have "last (CHR ''-'' # dec n) = last (dec n)" by (simp add: dec_nonempty)
  then have "last (CHR ''-'' # dec n) \<noteq> CHR 0x0A"
    using dec_last_digit [of n] digit_not_letters by metis
  then show ?thesis
    by (simp add: negative_number_like_def dropWhile_digits_dec dec_nonempty)
qed

lemma parse_optional_decimal_text:
  "parse_optional [(''-h'', Help), (''--help'', Help), (''--local_rank'', Store ''local_rank'')]
     (decimal_text v) = Inr Arg"
proof (cases "v < 0")
  case False
  obtain c cs where d: "dec (nat v) = c # cs"
    using dec_nonempty [of "nat v"] by (cases "dec (nat v)") auto
  then have "is_digit c" using dec_hd_digit [of "nat v"] by simp
  then have "c \<noteq> CHR ''-''" using digit_not_letters by blast
  then show ?thesis using False d by (simp add: parse_optional_def decimal_text_def)
next
  case True
  obtain c cs where d: "dec (nat (- v)) = c # cs"
    using dec_nonempty [of "nat (- v)"] by (cases "dec (nat (- v))") auto
  then have "is_digit c" using dec_hd_digit [of "nat (- v)"] by simp
  then have c: "c \<noteq> CHR ''-''" "c \<noteq> CHR ''h''" "c \<noteq> CHR ''=''"
    using digit_not_letters by blast+
  have n: "negative_number_like (CHR ''-'' # c # cs)"
    using negative_number_like_dec [of "nat (- v)"] d by simp
  have t: "get_option_tuples
      [(''-h'', Help), (''--help'', Help), (''--local_rank'', Store ''local_rank'')]
      (CHR ''-'' # c # cs) = []"
    using c by (simp add: get_option_tuples_def startswith_def)
  obtain sep e where p: "partition_eq (CHR ''-'' # c # cs) =
      (CHR ''-'' # c # takeWhile (\<lambda>c. c \<noteq> CHR ''='') cs, sep, e)"
    using c by (simp add: partition_eq_def Let_def)
  show ?thesis
    using True d c n t
    by (simp add: parse_optional_def decimal_text_def p)
qed

lemma decimal_text_not_dashes: "decimal_text v \<noteq> ''--''"
proof
  assume a: "decimal_text v = ''--''"
  show False
  proof (cases "v < 0")
    case True
    with a have "dec (nat (- v)) = ''-''" by (simp add: decimal_text_def)
    then show False using dec_hd_digit [of "nat (- v)"] digit_not_letters by force
  next
    case False
    with a have "dec (nat v) = ''--''" by (simp add: decimal_text_def)
    then show False using dec_hd_digit [of "nat v"] digit_not_letters by force
  qed
qed

lemma decimal_text_nonempty: "decimal_text v \<noteq> []"
  by (simp add: decimal_text_def dec_nonempty)

lemma parse_arguments_eq:
  "parse_arguments argv =
     (case classify [(''-h'', Help), (''--help'', Help), (''--local_rank'', Store ''local_rank'')] argv of
        Inl e \<Rightarrow> Inl e
      | Inr cs \<Rightarrow>
          consume [(''-h'', Help), (''--help'', Help), (''--local_rank'', Store ''local_rank'')]
            (zip argv cs) [''local_rank'' \<mapsto> - 1] False)"
  unfolding parse_arguments_def Let_def script_parser parse_args_def
  by (simp split: sum.splits)

lemma parse_optional_flag:
  "parse_optional [(''-h'', Help), (''--help'', Help), (''--local_rank'', Store ''local_rank'')]
     ''--local_rank'' = Inr (Opt (Some (Store ''local_rank'')) ''--local_rank'' False None)"
  by (simp add: parse_optional_def)

lemma parse_arguments_flag:
  assumes "num_digits v \<le> max_str_digits"
  shows "parse_arguments [''--local_rank'', decimal_text v] = Inr [''local_rank'' \<mapsto> v]"
  by (simp add: parse_arguments_eq parse_optional_flag parse_optional_decimal_text
      decimal_text_not_dashes match_argument_def count_dashes_def take_action_def
      py_int_decimal_text [OF assms])

text \<open>Beyond the digit limit \<open>int\<close> raises, and the parser ends in the usage error.\<close>

lemma py_int_decimal_text_limit:
  assumes "max_str_digits < num_digits v"
  shows "py_int (decimal_text v) = None"
proof -
  obtain c cs where t: "decimal_text v = c # cs"
    by (cases "decimal_text v") (auto simp: decimal_text_def dec_nonempty split: if_splits)
  have lim: "max_str_digits < length (filter is_digit (c # cs))"
    using assms digits_decimal_text [of v] t by simp
  have st: "strip (c # cs) = c # cs" using strip_decimal_text [of v] t by simp
  show ?thesis unfolding py_int_def t st using lim by (simp del: filter.simps)
qed

lemma parse_arguments_flag_limit:
  assumes "max_str_digits < num_digits v"
  shows "parse_arguments [''--local_rank'', decimal_text v] = Inl (SystemExit 2)"
  by (simp add: parse_arguments_eq parse_optional_flag parse_optional_decimal_text
      decimal_text_not_dashes match_argument_def count_dashes_def take_action_def
      py_int_decimal_text_limit [OF assms])

text \<open>Whatever string follows the flag: if the parser returns, \<open>int\<close> has read that string.\<close>

lemma parse_arguments_flag_returns:
  assumes "parse_arguments [''--local_rank'', s] = Inr ns"
  shows "\<exists>v. py_int s = Some v \<and> ns = [''local_rank'' \<mapsto> v]"
proof (cases "s = ''--''")
  case True
  with assms show ?thesis
    by (simp add: parse_arguments_eq parse_optional_flag match_argument_def count_dashes_def)
next
  case False
  let ?T = "[(''-h'', Help), (''--help'', Help), (''--local_rank'', Store ''local_rank'')]"
  from assms False obtain c where c: "parse_optional ?T s = Inr c"
    by (cases "parse_optional ?T s") (simp_all add: parse_arguments_eq parse_optional_flag)
  show ?thesis
  proof (cases c)
    case Arg
    with assms False c show ?thesis
      by (cases "py_int s")
         (simp_all add: parse_arguments_eq parse_optional_flag match_argument_def
            count_dashes_def take_action_def)
  next
    case Dashes
    with assms False c show ?thesis
      by (simp add: parse_arguments_eq parse_optional_flag match_argument_def count_dashes_def)
  next
    case (Opt a os sep e)
    with assms False c show ?thesis
      by (simp add: parse_arguments_eq parse_optional_flag match_argument_def count_dashes_def)
  qed
qed

lemma no_eq_decimal_text: "CHR ''='' \<notin> set (decimal_text v)"
proof -
  have "CHR ''='' \<notin> set (dec n)" for n
    using dec_digits [of n] digit_not_letters by (auto simp: list_all_iff)
  then show ?thesis by (simp add: decimal_text_def)
qed

lemma parse_optional_explicit:
  "parse_optional [(''-h'', Help), (''--help'', Help), (''--local_rank'', Store ''local_rank'')]
     (''--local_rank='' @ s) = Inr (Opt (Some (Store ''local_rank'')) ''--local_rank'' True (Some s))"
  by (simp add: parse_optional_def partition_eq_def)

lemma parse_arguments_flag_eq:
  assumes "num_digits v \<le> max_str_digits"
  shows "parse_arguments [''--local_rank='' @ decimal_text v] = Inr [''local_rank'' \<mapsto> v]"
proof -
  obtain x e where s: "decimal_text v = x # e"
    using decimal_text_nonempty [of v] by (cases "decimal_text v") auto
  have "parse_arguments [''--local_rank='' @ (x # e)] = Inr [''local_rank'' \<mapsto> v]"
    using parse_optional_explicit [of "x # e"] py_int_decimal_text [OF assms] s
    by (simp add: parse_arguments_eq nargs_def take_action_def)
  then show ?thesis using s by simp
qed

lemma parse_arguments_flag_eq_returns:
  assumes "parse_arguments [''--local_rank='' @ s] = Inr ns"
  shows "\<exists>v. py_int s = Some v \<and> ns = [''local_rank'' \<mapsto> v]"
proof (cases s)
  case Nil
  with assms parse_optional_explicit [of "[]"] show ?thesis
    by (simp add: parse_arguments_eq nargs_def take_action_def py_int_def strip_def)
next
  case (Cons x e)
  with assms parse_optional_explicit [of "x # e"] show ?thesis
    by (cases "py_int (x # e)") (simp_all add: parse_arguments_eq nargs_def take_action_def)
qed

lemma map_of_table: "\<forall>t\<in>set table. K (snd t) \<Longrightarrow> map_of table k = Some b \<Longrightarrow> K b"
  by (force dest: map_of_SomeD)

lemma get_option_tuples_actions:
  assumes "\<forall>t\<in>set table. K (snd t)"
  shows "\<forall>t\<in>set (get_option_tuples table tok). K (fst t)"
  using assms by (auto simp: get_option_tuples_def split: if_splits prod.splits)

lemma parse_optional_actions:
  assumes "parse_optional table tok = Inr (Opt (Some a) os sep e)"
    and "\<forall>t\<in>set table. K (snd t)"
  shows "K a"
proof (cases "get_option_tuples table tok")
  case Nil
  with assms(1) show ?thesis
    by (auto simp: parse_optional_def split: list.splits if_splits option.splits prod.splits
        dest: map_of_table [OF assms(2)])
next
  case (Cons t ts)
  obtain a' os' sep' e' where t: "t = (a', os', sep', e')" by (cases t) auto
  have "K a'"
    using get_option_tuples_actions [OF assms(2), of tok] Cons t by simp
  with assms(1) Cons t show ?thesis
    by (auto simp: parse_optional_def split: list.splits if_splits option.splits prod.splits
        dest: map_of_table [OF assms(2)])
qed

lemma classify_actions:
  assumes "\<forall>t\<in>set table. K (snd t)"
  shows "classify table argv = Inr cs \<Longrightarrow> known_options K cs"
proof (induction argv arbitrary: cs)
  case Nil
  then show ?case by (simp add: known_options_def)
next
  case (Cons tok rest)
  show ?case
  proof (cases "tok = ''--''")
    case True
    with Cons.prems show ?thesis by (auto simp: known_options_def list_all_iff)
  next
    case False
    with Cons.prems obtain c cs' where c: "parse_optional table tok = Inr c"
      and cs': "classify table rest = Inr cs'" and cs: "cs = c # cs'"
      by (auto split: sum.splits)
    have "known_options K cs'" using Cons.IH [OF cs'] .
    moreover have "case c of Opt (Some a) _ _ _ \<Rightarrow> K a | _ \<Rightarrow> True"
      using parse_optional_actions [of table tok _ _ _ _ K] c assms
      by (auto split: arg_class.splits option.splits)
    ultimately show ?thesis using cs by (simp add: known_options_def)
  qed
qed

lemma optional_loop_actions:
  assumes "optional_loop table act os sep e toks cs acc = Inr (tuples, extra, n)"
    and "K act" and "\<forall>t\<in>set acc. K (fst t)" and "\<forall>t\<in>set table. K (snd t)"
  shows "\<forall>t\<in>set tuples. K (fst t)"
  using assms
proof (induction table act os sep e toks cs acc rule: optional_loop.induct)
  case (1 table act os sep toks cs acc)
  then show ?case by (auto split: sum.splits)
next
  case (2 table act os sep toks cs acc)
  then show ?case by (auto split: if_splits)
next
  case (3 table act os sep x e toks cs acc)
  note tab = "3.prems"(4)
  show ?case
  proof (cases "nargs act = 0 \<and> single_dash os")
    case False
    with "3.prems" show ?thesis by (auto split: if_splits)
  next
    case True
    show ?thesis
    proof (cases "sep \<or> x = CHR ''-''")
      case True
      with \<open>nargs act = 0 \<and> single_dash os\<close> "3.prems" show ?thesis by simp
    next
      case nsep: False
      show ?thesis
      proof (cases "map_of table [CHR ''-'', x]")
        case None
        with True nsep "3.prems" show ?thesis by auto
      next
        case (Some act')
        have a': "K act'" using map_of_table [OF tab Some] .
        have acc': "\<forall>t\<in>set (acc @ [(act, [])]). K (fst t)"
          using "3.prems" by auto
        show ?thesis
        proof (cases e)
          case Nil
          with True nsep Some "3.prems"(1) have
            "optional_loop table act' [CHR ''-'', x] False None toks cs (acc @ [(act, [])]) =
               Inr (tuples, extra, n)" by simp
          from "3.IH"(1) [OF True nsep Some Nil this a' acc' tab] show ?thesis .
        next
          case (Cons c e')
          show ?thesis
          proof (cases "c = CHR ''=''")
            case eq: True
            with Cons True nsep Some "3.prems"(1) have
              "optional_loop table act' [CHR ''-'', x] True (Some e') toks cs (acc @ [(act, [])]) =
                 Inr (tuples, extra, n)" by simp
            from "3.IH"(2) [OF True nsep Some Cons eq this a' acc' tab] show ?thesis .
          next
            case neq: False
            with Cons True nsep Some "3.prems"(1) have
              "optional_loop table act' [CHR ''-'', x] False (Some (c # e')) toks cs
                 (acc @ [(act, [])]) = Inr (tuples, extra, n)" by simp
            from "3.IH"(3) [OF True nsep Some Cons neq this a' acc' tab] show ?thesis .
          qed
        qed
      qed
    qed
  qed
qed

lemma take_action_dom:
  assumes "take_action ns act args = Inr ns'" and "stores_local_rank act"
    and "''local_rank'' \<in> dom ns"
  shows "dom ns' = dom ns"
  using assms
  by (auto simp: take_action_def stores_local_rank_def
      split: action.splits list.splits option.splits if_splits)

lemma take_actions_dom:
  assumes "take_actions ns ts = Inr ns'" and "\<forall>t\<in>set ts. stores_local_rank (fst t)"
    and "''local_rank'' \<in> dom ns"
  shows "dom ns' = dom ns"
  using assms
proof (induction ts arbitrary: ns)
  case Nil
  then show ?case by simp
next
  case (Cons t ts)
  obtain act args where t: "t = (act, args)" by (cases t) auto
  with Cons.prems obtain ns1 where 1: "take_action ns act args = Inr ns1"
    and 2: "take_actions ns1 ts = Inr ns'"
    by (auto split: sum.splits)
  have d: "dom ns1 = dom ns"
    using take_action_dom [OF 1] Cons.prems t by simp
  have "dom ns' = dom ns1"
    using Cons.IH [OF 2] Cons.prems d by simp
  with d show ?case by simp
qed

lemma known_options_drop: "known_options K cs \<Longrightarrow> known_options K (drop n cs)"
  by (auto simp: known_options_def list_all_iff dest: in_set_dropD)

lemma consume_dom:
  assumes "consume table items ns extras = Inr ns'"
    and "\<forall>t\<in>set table. stores_local_rank (snd t)"
    and "known_options stores_local_rank (map snd items)"
    and "''local_rank'' \<in> dom ns"
  shows "dom ns' = dom ns"
  using assms
proof (induction table items ns extras rule: consume.induct)
  case (1 table ns extras)
  then show ?case by (simp split: if_splits)
next
  case (2 table tok c rest ns extras)
  have rest: "known_options stores_local_rank (map snd rest)"
    using "2.prems"(3) by (simp add: known_options_def)
  show ?case
  proof (cases "\<exists>act os sep e. c = Opt (Some act) os sep e")
    case False
    have shape: "c = Arg \<or> c = Dashes \<or> (\<exists>os sep e. c = Opt None os sep e)"
    proof (cases c)
      case (Opt a os sep e)
      with False show ?thesis by (cases a) auto
    qed auto
    then have cont: "consume table rest ns True = Inr ns'"
      using "2.prems"(1) by auto
    from shape show ?thesis
      using "2.IH" cont "2.prems"(2,4) rest by (elim disjE exE) simp_all
  next
    case True
    then obtain act os sep e where c: "c = Opt (Some act) os sep e" by blast
    have act: "stores_local_rank act"
      using "2.prems"(3) c by (simp add: known_options_def)
    from "2.prems"(1) c obtain tuples extra n ns1 where
      loop: "optional_loop table act os sep e (map fst rest) (map snd rest) [] =
               Inr (tuples, extra, n)"
      and acts: "take_actions ns tuples = Inr ns1"
      and cont: "consume table (drop n rest) ns1 (extras \<or> extra) = Inr ns'"
      by (auto split: sum.splits prod.splits)
    have "\<forall>t\<in>set tuples. stores_local_rank (fst t)"
      using optional_loop_actions [OF loop act _ "2.prems"(2)] by simp
    then have d: "dom ns1 = dom ns"
      using take_actions_dom [OF acts] "2.prems"(4) by simp
    have k: "known_options stores_local_rank (map snd (drop n rest))"
      using known_options_drop [OF rest, of n] by (simp add: drop_map)
    have "dom ns' = dom ns1"
      using "2.IH"(4) [OF c refl loop refl refl acts cont "2.prems"(2) k] d "2.prems"(4) by simp
    with d show ?thesis by simp
  qed
qed

lemma parse_arguments_dom:
  assumes "parse_arguments argv = Inr ns"
  shows "dom ns = {''local_rank''}"
proof -
  let ?T = "[(''-h'', Help), (''--help'', Help), (''--local_rank'', Store ''local_rank'')]"
  have T: "\<forall>t\<in>set ?T. stores_local_rank (snd t)"
    by (simp add: stores_local_rank_def)
  from assms obtain cs where cs: "classify ?T argv = Inr cs"
    and c: "consume ?T (zip argv cs) [''local_rank'' \<mapsto> - 1] False = Inr ns"
    unfolding parse_arguments_def Let_def script_parser parse_args_def
    by (auto split: sum.splits)
  have "known_options stores_local_rank cs"
    using classify_actions [OF T cs] .
  then have k: "known_options stores_local_rank (map snd (zip argv cs))"
    by (auto simp: known_options_def list_all_iff dest: set_zip_rightD)
  have "dom ns = dom [''local_rank'' \<mapsto> - 1::int]"
    by (rule consume_dom [OF c T k]) simp
  then show ?thesis by simp
qed

text \<open>
  Claim C6. The parser of \<open>parse_arguments\<close> has one option that stores a value,
  \<open>--local_rank\<close>, with destination \<open>local_rank\<close>, converted by \<open>int\<close>, and with default
  \<open>-1\<close>. Without arguments the parsed object has \<open>local_rank = -1\<close>. With the flag and
  the decimal text of an integer \<open>v\<close> of at most 4300 digits, given as the next argument or
  after \<open>=\<close>, it has \<open>local_rank = v\<close>; with more digits \<open>int\<close> raises and the parser exits
  with status 2. With the flag and any string, whenever the parser
  returns an object, its \<open>local_rank\<close> is the integer that \<open>int\<close> reads from that string.
  Whatever the command line, an object that \<open>parse_arguments\<close> returns has the one
  attribute \<open>local_rank\<close>.
\<close>

theorem parse_arguments_local_rank:
  "[(os, dest). (os, Store dest) \<leftarrow>
      option_string_actions (add_argument ArgumentParser ''--local_rank'' (- 1)
        ''local_rank for distributed training on gpus'')] = [(''--local_rank'', ''local_rank'')]
   \<and> defaults (add_argument ArgumentParser ''--local_rank'' (- 1)
        ''local_rank for distributed training on gpus'') = [''local_rank'' \<mapsto> - 1]
   \<and> parse_arguments [] = Inr [''local_rank'' \<mapsto> - 1]
   \<and> (\<forall>v. num_digits v \<le> max_str_digits \<longrightarrow>
          parse_arguments [''--local_rank'', decimal_text v] = Inr [''local_rank'' \<mapsto> v])
   \<and> (\<forall>v. num_digits v \<le> max_str_digits \<longrightarrow>
          parse_arguments [''--local_rank='' @ decimal_text v] = Inr [''local_rank'' \<mapsto> v])
   \<and> (\<forall>s ns. parse_arguments [''--local_rank'', s] = Inr ns \<longrightarrow>
          (\<exists>v. py_int s = Some v \<and> ns = [''local_rank'' \<mapsto> v]))
   \<and> (\<forall>s ns. parse_arguments [''--local_rank='' @ s] = Inr ns \<longrightarrow>
          (\<exists>v. py_int s = Some v \<and> ns = [''local_rank'' \<mapsto> v]))
   \<and> (\<forall>argv ns. parse_arguments argv = Inr ns \<longrightarrow> dom ns = {''local_rank''})
   \<and> (\<forall>v. max_str_digits < num_digits v \<longrightarrow>
          parse_arguments [''--local_rank'', decimal_text v] = Inl (SystemExit 2))"
proof -
  have 1: "[(os, dest). (os, Store dest) \<leftarrow>
      option_string_actions (add_argument ArgumentParser ''--local_rank'' (- 1)
        ''local_rank for distributed training on gpus'')] = [(''--local_rank'', ''local_rank'')]"
    by (simp add: script_parser)
  have 2: "defaults (add_argument ArgumentParser ''--local_rank'' (- 1)
        ''local_rank for distributed training on gpus'') = [''local_rank'' \<mapsto> - 1]"
    by (simp add: script_parser)
  have 4: "\<forall>v. num_digits v \<le> max_str_digits \<longrightarrow>
          parse_arguments [''--local_rank'', decimal_text v] = Inr [''local_rank'' \<mapsto> v]"
    using parse_arguments_flag by blast
  have 5: "\<forall>v. num_digits v \<le> max_str_digits \<longrightarrow>
          parse_arguments [''--local_rank='' @ decimal_text v] = Inr [''local_rank'' \<mapsto> v]"
    using parse_arguments_flag_eq by blast
  have 6: "\<forall>s ns. parse_arguments [''--local_rank'', s] = Inr ns \<longrightarrow>
          (\<exists>v. py_int s = Some v \<and> ns = [''local_rank'' \<mapsto> v])"
    using parse_arguments_flag_returns by blast
  have 7: "\<forall>s ns. parse_arguments [''--local_rank='' @ s] = Inr ns \<longrightarrow>
          (\<exists>v. py_int s = Some v \<and> ns = [''local_rank'' \<mapsto> v])"
    using parse_arguments_flag_eq_returns by blast
  have 8: "\<forall>argv ns. parse_arguments argv = Inr ns \<longrightarrow> dom ns = {''local_rank''}"
    using parse_arguments_dom by blast
  have 9: "\<forall>v. max_str_digits < num_digits v \<longrightarrow>
          parse_arguments [''--local_rank'', decimal_text v] = Inl (SystemExit 2)"
    using parse_arguments_flag_limit by blast
  show ?thesis
    by (intro conjI) (rule 1 2 parse_arguments_empty 4 5 6 7 8 9)+
qed

lemma num_digits_3: "num_digits 3 \<le> max_str_digits"
  unfolding num_digits_def max_str_digits_def by (subst dec.simps) simp

theorem parse_arguments_local_rank_witness:
  "(\<exists>ns. parse_arguments [] = Inr ns \<and> ns ''local_rank'' = Some (- 1)
      \<and> dom ns = {''local_rank''})
   \<and> num_digits 3 \<le> max_str_digits
   \<and> parse_arguments [''--local_rank'', decimal_text 3] = Inr [''local_rank'' \<mapsto> 3]
   \<and> py_int (decimal_text 3) = Some 3"
proof -
  note t = parse_arguments_local_rank [THEN conjunct2, THEN conjunct2]
  have 1: "parse_arguments [] = Inr [''local_rank'' \<mapsto> - 1]"
    by (rule t [THEN conjunct1])
  have 4: "\<forall>v. num_digits v \<le> max_str_digits \<longrightarrow>
          parse_arguments [''--local_rank'', decimal_text v] = Inr [''local_rank'' \<mapsto> v]"
    by (rule t [THEN conjunct2, THEN conjunct1])
  have 6: "\<forall>s ns. parse_arguments [''--local_rank'', s] = Inr ns \<longrightarrow>
          (\<exists>v. py_int s = Some v \<and> ns = [''local_rank'' \<mapsto> v])"
    by (rule t [THEN conjunct2, THEN conjunct2, THEN conjunct2, THEN conjunct1])
  have 8: "\<forall>argv ns. parse_arguments argv = Inr ns \<longrightarrow> dom ns = {''local_rank''}"
    by (rule t [THEN conjunct2, THEN conjunct2, THEN conjunct2, THEN conjunct2, THEN conjunct2,
          THEN conjunct1])
  from 8 1 have d: "dom [''local_rank'' \<mapsto> - 1::int] = {''local_rank''}" by blast
  have a: "\<exists>ns. parse_arguments [] = Inr ns \<and> ns ''local_rank'' = Some (- 1)
      \<and> dom ns = {''local_rank''}"
    using 1 d by (intro exI [of _ "[''local_rank'' \<mapsto> - 1]"]) simp
  from 4 num_digits_3 have p:
    "parse_arguments [''--local_rank'', decimal_text 3] = Inr [''local_rank'' \<mapsto> 3]"
    by blast
  from 6 p obtain v where v: "py_int (decimal_text 3) = Some v"
    "[''local_rank'' \<mapsto> 3::int] = [''local_rank'' \<mapsto> v]"
    by blast
  from v(2) have "v = 3" by (metis map_upd_eqD1)
  with v(1) have i: "py_int (decimal_text 3) = Some 3" by simp
  show ?thesis using a num_digits_3 p i by (intro conjI)
qed

subsection \<open>The calls of the script\<close>

text \<open>When the command line parses, reading \<open>args.local_rank\<close> succeeds and the calls follow.\<close>

lemma train_from_scratch_calls:
  assumes "parse_arguments argv = Inr ns"
  shows "\<exists>cs. train_from_scratch E argv = Inr cs"
proof -
  have "ns ''local_rank'' \<noteq> None" using parse_arguments_dom [OF assms] by auto
  then show ?thesis
    using assms unfolding train_from_scratch_def Let_def
    by (auto split: prod.splits)
qed

lemma train_from_scratch_default: "\<exists>cs. train_from_scratch E [] = Inr cs"
  unfolding train_from_scratch_def Let_def
  by (simp add: parse_arguments_empty split: prod.splits)

text \<open>
  Claim C1. In every run that gets past the command line, one tokenizer is built; the
  base encoder and the masked-LM head are built with that tokenizer's vocabulary size,
  whatever it is, and these are the parts of the assembled model; no part of the model is
  built before the tokenizer.
\<close>

theorem output_layer_width_is_vocab_size:
  assumes "train_from_scratch E argv = Inr cs"
  shows "\<exists>tok. [t. BertTokenizer t \<leftarrow> cs] = [tok]
     \<and> [n. Prediction_head (BertLMHead h n) \<leftarrow> cs] = [tokenizer_vocab_size E tok]
     \<and> [lm_vocab_size m. LanguageModel_from_scratch m \<leftarrow> cs] = [tokenizer_vocab_size E tok]
     \<and> [(lm_vocab_size (am_language_model a), am_prediction_heads a). AdaptiveModel a \<leftarrow> cs] =
         [(tokenizer_vocab_size E tok,
           [BertLMHead 768 (tokenizer_vocab_size E tok), NextSentenceHead [768, 2] ''nextsentence''])]
     \<and> filter constructs_parameters (takeWhile (\<lambda>c. c \<noteq> BertTokenizer tok) cs) = []"
  using assms unfolding train_from_scratch_def Let_def
  by (auto split: sum.splits option.splits prod.splits simp: constructs_parameters_def)

theorem output_layer_width_is_vocab_size_witness:
  "\<exists>cs tok. train_from_scratch example_collaborators [] = Inr cs
     \<and> [t. BertTokenizer t \<leftarrow> cs] = [tok]
     \<and> [n. Prediction_head (BertLMHead h n) \<leftarrow> cs] = [30522]
     \<and> [lm_vocab_size m. LanguageModel_from_scratch m \<leftarrow> cs] = [30522]"
proof -
  obtain cs where cs: "train_from_scratch example_collaborators [] = Inr cs"
    using train_from_scratch_default by blast
  from output_layer_width_is_vocab_size [OF cs] show ?thesis
    using cs by (auto simp: example_collaborators_def)
qed

text \<open>
  Claim C8. \<open>use_amp\<close> is \<open>None\<close>, and the calls that take a \<open>use_amp\<close> argument are
  device selection, optimizer initialisation and the creation of the trainer, in this
  order; each of them is passed \<open>None\<close>.
\<close>

theorem mixed_precision_disabled:
  assumes "train_from_scratch E argv = Inr cs"
  shows "\<exists>args oa tr.
     [c \<leftarrow> cs. use_amp_of c \<noteq> None] =
       [Initialize_device_settings True args None, Initialize_optimizer oa,
        Trainer_create_or_load_checkpoint tr]
     \<and> oa_use_amp oa = None \<and> tr_use_amp tr = None
     \<and> List.map_filter use_amp_of cs = [None, None, None]"
  using assms unfolding train_from_scratch_def Let_def
  by (auto split: sum.splits option.splits prod.splits simp: List.map_filter_def use_amp_of_def)

theorem mixed_precision_disabled_witness:
  "\<exists>cs. train_from_scratch example_collaborators [] = Inr cs
     \<and> List.map_filter use_amp_of cs = [None, None, None]"
proof -
  obtain cs where cs: "train_from_scratch example_collaborators [] = Inr cs"
    using train_from_scratch_default by blast
  from mixed_precision_disabled [OF cs] show ?thesis
    using cs by auto
qed

text \<open>
  Claim C9. After logging is configured, the first calls of the script create the
  tracking logger with the tracking URI it configures (the empty string) and open the
  experiment \<open>train_from_scratch\<close> with the run name \<open>run\<close>; seeding and every other
  collaborator call come after.
\<close>

theorem experiment_opened_at_start:
  assumes "train_from_scratch E argv = Inr cs"
  shows "\<exists>fmt datefmt level rest.
     cs = Basic_config fmt datefmt level # MLFlowLogger [] #
          Init_experiment ''train_from_scratch'' ''run'' # Set_all_seeds 39 # rest"
  using assms unfolding train_from_scratch_def Let_def
  by (auto split: sum.splits option.splits prod.splits)

theorem experiment_opened_at_start_witness:
  "\<exists>cs fmt datefmt level rest. train_from_scratch example_collaborators [] = Inr cs
     \<and> cs = Basic_config fmt datefmt level # MLFlowLogger [] #
          Init_experiment ''train_from_scratch'' ''run'' # Set_all_seeds 39 # rest"
proof -
  obtain cs where cs: "train_from_scratch example_collaborators [] = Inr cs"
    using train_from_scratch_default by blast
  from experiment_opened_at_start [OF cs] show ?thesis
    using cs by auto
qed

text \<open>
  Claim C10. The processor is built with neither a dev file nor a test file, and the
  trainer, whose data silo wraps that processor, is created with \<open>evaluate_every = 10000\<close>.
\<close>

theorem no_held_out_dataset:
  assumes "train_from_scratch E argv = Inr cs"
  shows "\<exists>p tr. [q. BertStyleLMProcessor q \<leftarrow> cs] = [p]
     \<and> proc_dev_filename p = None \<and> proc_test_filename p = None
     \<and> [t. Trainer_create_or_load_checkpoint t \<leftarrow> cs] = [tr]
     \<and> tr_evaluate_every tr = 10000
     \<and> silo_processor (tr_data_silo tr) = p"
  using assms unfolding train_from_scratch_def Let_def
  by (auto split: sum.splits option.splits prod.splits)

theorem no_held_out_dataset_witness:
  "\<exists>cs p tr. train_from_scratch example_collaborators [] = Inr cs
     \<and> [q. BertStyleLMProcessor q \<leftarrow> cs] = [p]
     \<and> proc_dev_filename p = None \<and> proc_test_filename p = None
     \<and> [t. Trainer_create_or_load_checkpoint t \<leftarrow> cs] = [tr]
     \<and> tr_evaluate_every tr = 10000"
proof -
  obtain cs where cs: "train_from_scratch example_collaborators [] = Inr cs"
    using train_from_scratch_default by blast
  from no_held_out_dataset [OF cs] show ?thesis
    using cs by auto
qed

subsection \<open>Seeding and the initial parameters\<close>

lemma perform_Set_all_seeds:
  "perform E (Set_all_seeds s) w =
     \<lparr>rng = seed_generators E s, completed = completed w @ [Set_all_seeds s],
      parameters = parameters w\<rparr>"
  by (simp add: perform_def set_all_seeds_def constructs_parameters_def)

lemma perform_no_parameters:
  "\<not> constructs_parameters c \<Longrightarrow>
     completed (perform E c w) = completed w @ [c] \<and> parameters (perform E c w) = parameters w"
  by (simp add: perform_def)

lemma execute_rng_independent:
  assumes "filter constructs_parameters pre = []"
    and "completed w1 = completed w2" and "parameters w1 = parameters w2"
  shows "fst (execute E (pre @ Set_all_seeds s # post) w1) =
         fst (execute E (pre @ Set_all_seeds s # post) w2)
       \<and> completed (snd (execute E (pre @ Set_all_seeds s # post) w1)) =
         completed (snd (execute E (pre @ Set_all_seeds s # post) w2))
       \<and> parameters (snd (execute E (pre @ Set_all_seeds s # post) w1)) =
         parameters (snd (execute E (pre @ Set_all_seeds s # post) w2))"
  using assms
proof (induction pre arbitrary: w1 w2)
  case Nil
  then show ?case by (simp add: perform_Set_all_seeds)
next
  case (Cons c pre)
  from Cons.prems have c: "\<not> constructs_parameters c" and pre: "filter constructs_parameters pre = []"
    by (auto split: if_splits)
  show ?case
  proof (cases "raises E c")
    case True
    then show ?thesis using Cons.prems by simp
  next
    case False
    have "completed (perform E c w1) = completed (perform E c w2)"
      "parameters (perform E c w1) = parameters (perform E c w2)"
      using c Cons.prems by (simp_all add: perform_no_parameters)
    from Cons.IH [OF pre this] show ?thesis using False by simp
  qed
qed

lemma execute_after_seeding:
  assumes "cs = pre @ Set_all_seeds s # post" and "filter constructs_parameters pre = []"
  shows "parameters (snd (execute E cs \<lparr>rng = g1, completed = [], parameters = []\<rparr>)) =
         parameters (snd (execute E cs \<lparr>rng = g2, completed = [], parameters = []\<rparr>))"
  unfolding assms(1)
  by (rule execute_rng_independent [OF assms(2), THEN conjunct2, THEN conjunct2]) simp_all

text \<open>
  Claim C2. The script seeds the generators with 39 before it builds any part of the
  model. So two runs with the same collaborators and the same command line start from
  identical model parameters, whatever the states of the random number generators were
  when the runs began.
\<close>

theorem seed_determinism:
  "initial_model_parameters E argv g1 = initial_model_parameters E argv g2"
proof (cases "train_from_scratch E argv")
  case (Inl e)
  then show ?thesis by (simp add: initial_model_parameters_def run_def)
next
  case (Inr cs)
  then obtain c1 c2 c3 post where cs: "cs = [c1, c2, c3] @ Set_all_seeds 39 # post"
    and pre: "filter constructs_parameters [c1, c2, c3] = []"
    unfolding train_from_scratch_def Let_def
    by (auto split: sum.splits option.splits prod.splits simp: constructs_parameters_def)
  show ?thesis
    using Inr execute_after_seeding [OF cs pre, of E g1 g2]
    by (simp add: initial_model_parameters_def run_def split_beta)
qed

text \<open>With the example collaborators the four parts of the model are initialised.\<close>

lemma initial_model_parameters_example: "initial_model_parameters example_collaborators [] g = [43, 44, 45, 46]"
  unfolding initial_model_parameters_def run_def train_from_scratch_def Let_def
  by (simp add: parse_arguments_empty example_collaborators_def perform_def set_all_seeds_def
      constructs_parameters_def)

subsection \<open>Saving\<close>

lemma completed_perform: "completed (perform E c w) = completed w @ [c]"
  by (simp add: perform_def)

lemma execute_completed:
  "\<exists>n. completed (snd (execute E cs w)) = completed w @ take n cs
     \<and> (fst (execute E cs w) = None \<longrightarrow> n = length cs)"
proof (induction cs arbitrary: w)
  case Nil
  show ?case by simp
next
  case (Cons c cs)
  show ?case
  proof (cases "raises E c")
    case True
    then have "completed (snd (execute E (c # cs) w)) = completed w @ take 0 (c # cs)
      \<and> (fst (execute E (c # cs) w) = None \<longrightarrow> 0 = length (c # cs))"
      by simp
    then show ?thesis by (rule exI)
  next
    case False
    from Cons [of "perform E c w"] obtain n where
      n: "completed (snd (execute E cs (perform E c w))) = completed (perform E c w) @ take n cs"
         "fst (execute E cs (perform E c w)) = None \<longrightarrow> n = length cs"
      by (elim exE conjE)
    have "completed (snd (execute E (c # cs) w)) = completed w @ take (Suc n) (c # cs)
      \<and> (fst (execute E (c # cs) w) = None \<longrightarrow> Suc n = length (c # cs))"
      using False n by (simp add: completed_perform)
    then show ?thesis by (rule exI)
  qed
qed

lemma take_reaches:
  assumes "filter P pre = []" and "filter P (take n (pre @ t # rest)) \<noteq> []"
  shows "\<exists>post. take n (pre @ t # rest) = pre @ t # post"
proof (cases "n \<le> length pre")
  case True
  then have "take n (pre @ t # rest) = take n pre" by simp
  moreover have "filter P (take n pre) = []"
    using assms(1) by (auto simp: filter_empty_conv dest: in_set_takeD)
  ultimately show ?thesis using assms(2) by simp
next
  case False
  then obtain k where k: "n - length pre = Suc k" by (cases "n - length pre") auto
  have "take n (pre @ t # rest) = pre @ t # take k rest"
    using False k by simp
  then show ?thesis by blast
qed

lemma script_ends_with_saves:
  assumes "train_from_scratch E argv = Inr cs"
  shows "\<exists>pre tr m p. cs = pre @ Trainer_train tr #
      [Model_save m ''saved_models/train_from_scratch'',
       Processor_save p ''saved_models/train_from_scratch''] \<and> filter is_save pre = []"
proof -
  from assms have d: "\<exists>tr m p. drop 15 cs =
      [Trainer_train tr, Model_save m ''saved_models/train_from_scratch'',
       Processor_save p ''saved_models/train_from_scratch'']"
    unfolding train_from_scratch_def Let_def
    by (auto split: sum.splits option.splits prod.splits)
  from assms have pre: "filter is_save (take 15 cs) = []"
    unfolding train_from_scratch_def Let_def
    by (auto split: sum.splits option.splits prod.splits simp: is_save_def)
  from d obtain tr m p where "drop 15 cs =
      [Trainer_train tr, Model_save m ''saved_models/train_from_scratch'',
       Processor_save p ''saved_models/train_from_scratch'']"
    by blast
  then have "cs = take 15 cs @ Trainer_train tr #
      [Model_save m ''saved_models/train_from_scratch'',
       Processor_save p ''saved_models/train_from_scratch'']"
    using append_take_drop_id [of 15 cs] by simp
  with pre show ?thesis by blast
qed

text \<open>
  Claim C7. In every run, a call that writes to the save directory has completed only if
  the training call completed before it, with no write before the training call. A run
  in which no call fails ends with training, then \<open>model.save\<close>, then \<open>processor.save\<close>,
  both to \<open>saved_models/train_from_scratch\<close>, and no earlier call writes there.
\<close>

theorem persistence_is_final_stage:
  assumes "run E argv g = Inr (failed, w)"
  shows "(filter is_save (completed w) \<noteq> [] \<longrightarrow>
            (\<exists>pre tr post. completed w = pre @ Trainer_train tr # post \<and> filter is_save pre = []))
       \<and> (failed = None \<longrightarrow>
            (\<exists>pre tr m p. completed w =
                pre @ [Trainer_train tr, Model_save m ''saved_models/train_from_scratch'',
                       Processor_save p ''saved_models/train_from_scratch'']
              \<and> filter is_save pre = []))"
proof -
  from assms obtain cs where cs: "train_from_scratch E argv = Inr cs"
    and ex: "execute E cs \<lparr>rng = g, completed = [], parameters = []\<rparr> = (failed, w)"
    by (auto simp: run_def split: sum.splits)
  from script_ends_with_saves [OF cs] obtain pre tr m p where
    shape: "cs = pre @ Trainer_train tr #
      [Model_save m ''saved_models/train_from_scratch'',
       Processor_save p ''saved_models/train_from_scratch'']"
    and pre: "filter is_save pre = []"
    by (elim exE conjE)
  from execute_completed [of E cs "\<lparr>rng = g, completed = [], parameters = []\<rparr>"]
  obtain n where n: "completed w = take n cs" "failed = None \<longrightarrow> n = length cs"
    using ex by auto
  have 1: "\<exists>pre tr post. completed w = pre @ Trainer_train tr # post \<and> filter is_save pre = []"
    if "filter is_save (completed w) \<noteq> []"
  proof -
    from that have "filter is_save (take n (pre @ Trainer_train tr #
      [Model_save m ''saved_models/train_from_scratch'',
       Processor_save p ''saved_models/train_from_scratch''])) \<noteq> []"
      using n(1) shape by simp
    from take_reaches [OF pre this] obtain post where
      "take n cs = pre @ Trainer_train tr # post"
      using shape by auto
    then show ?thesis using pre n(1) by auto
  qed
  have 2: "\<exists>pre tr m p. completed w =
                pre @ [Trainer_train tr, Model_save m ''saved_models/train_from_scratch'',
                       Processor_save p ''saved_models/train_from_scratch'']
              \<and> filter is_save pre = []"
    if "failed = None"
  proof -
    from that n have "completed w = cs" by simp
    then show ?thesis using shape pre by auto
  qed
  show ?thesis using 1 2 by blast
qed

lemma run_example:
  "\<exists>w. run example_collaborators [] g = Inr (None, w)"
  unfolding run_def train_from_scratch_def Let_def
  by (simp add: parse_arguments_empty example_collaborators_def)

theorem persistence_is_final_stage_witness:
  "\<exists>w pre tr m p. run example_collaborators [] 0 = Inr (None, w)
     \<and> completed w = pre @ [Trainer_train tr, Model_save m ''saved_models/train_from_scratch'',
                       Processor_save p ''saved_models/train_from_scratch'']
     \<and> filter is_save pre = []"
proof -
  obtain w where w: "run example_collaborators [] 0 = Inr (None, w)"
    using run_example by blast
  from persistence_is_final_stage [OF w] show ?thesis using w by auto
qed

subsection \<open>The step count\<close>

lemma ceil_div_nat:
  assumes "0 < m"
  shows "int ((d + m - 1) div m) = \<lceil>real d / real m\<rceil>"
proof -
  define q where "q = (d + m - 1) div m"
  have a: "q * m \<le> d + m - 1" by (simp add: q_def)
  have b: "d + m - 1 < m + q * m"
    unfolding q_def using assms by (rule dividend_less_div_times)
  from a b assms have 1: "d \<le> q * m" and 2: "q * m < d + m" by linarith+
  have "real d \<le> real (q * m)" using 1 by (simp only: of_nat_le_iff)
  then have le: "real d / real m \<le> real q"
    using assms by (simp add: pos_divide_le_eq)
  have "real (q * m) < real (d + m)" using 2 by (simp only: of_nat_less_iff)
  then have "(real q - 1) * real m < real d" by (simp add: algebra_simps)
  then have gt: "real q - 1 < real d / real m"
    using assms by (simp add: pos_less_divide_eq)
  have "\<lceil>real d / real m\<rceil> = int q"
    by (rule ceiling_unique) (use le gt in simp_all)
  then show ?thesis by (simp add: q_def)
qed

lemma floor_div_nat: "int (a div b) = \<lfloor>real a / real b\<rfloor>"
  by (simp add: floor_divide_of_nat_eq)

text \<open>
  Claim C3. The script passes to \<open>initialize_optimizer\<close> the length of the training data
  loader of a silo with batch size 60, one epoch and four gradient accumulation steps.
  When the loader's length is the spec's \<open>ceil(dataset_size / (batch_size \<times> world_size))\<close>,
  the spec's step count for these arguments is
  \<open>ceil(dataset_size / (60 \<times> world_size)) \<times> 1 \<div> 4\<close>, rounded down.
\<close>

theorem optimizer_step_count:
  assumes "train_from_scratch E argv = Inr cs"
    and "0 < world_size"
    and "\<forall>s. 0 < silo_batch_size s \<longrightarrow>
           spec_n_batches dataset_size (silo_batch_size s) world_size = Some (loader_len E s ''train'')"
  shows "\<exists>silo oa steps.
       [(s, name). Get_data_loader s name \<leftarrow> cs] = [(silo, ''train'')]
     \<and> silo_batch_size silo = 60
     \<and> [a. Initialize_optimizer a \<leftarrow> cs] = [oa]
     \<and> oa_n_batches oa = loader_len E silo ''train''
     \<and> oa_n_epochs oa = 1
     \<and> oa_grad_acc_steps oa = 4
     \<and> spec_optimizer_steps (oa_n_batches oa) (oa_n_epochs oa) (oa_grad_acc_steps oa) = Some steps
     \<and> int steps = \<lfloor>real_of_int (\<lceil>real dataset_size / (60 * real world_size)\<rceil> * 1) / 4\<rfloor>"
proof -
  from assms(1) obtain silo oa where
    1: "[(s, name). Get_data_loader s name \<leftarrow> cs] = [(silo, ''train'')]"
       "silo_batch_size silo = 60"
       "[a. Initialize_optimizer a \<leftarrow> cs] = [oa]"
       "oa_n_batches oa = loader_len E silo ''train''"
       "oa_n_epochs oa = 1"
       "oa_grad_acc_steps oa = 4"
    unfolding train_from_scratch_def Let_def
    by (auto split: sum.splits option.splits prod.splits)
  from assms(3) 1(2) have "spec_n_batches dataset_size 60 world_size = Some (loader_len E silo ''train'')"
    by (metis zero_less_numeral)
  then have n: "loader_len E silo ''train'' =
      (dataset_size + 60 * world_size - 1) div (60 * world_size)"
    using assms(2) by (simp add: spec_n_batches_def)
  have c: "int (loader_len E silo ''train'') = \<lceil>real dataset_size / (60 * real world_size)\<rceil>"
    unfolding n using ceil_div_nat [of "60 * world_size" dataset_size] assms(2) by simp
  define steps where "steps = loader_len E silo ''train'' * 1 div 4"
  have s: "spec_optimizer_steps (oa_n_batches oa) (oa_n_epochs oa) (oa_grad_acc_steps oa) = Some steps"
    using 1 by (simp add: spec_optimizer_steps_def steps_def)
  have "int steps = \<lfloor>real (loader_len E silo ''train'') / real 4\<rfloor>"
    unfolding steps_def using floor_div_nat [of "loader_len E silo ''train''" 4] by simp
  also have "real (loader_len E silo ''train'') = real_of_int (int (loader_len E silo ''train''))"
    by simp
  finally have "int steps =
      \<lfloor>real_of_int (\<lceil>real dataset_size / (60 * real world_size)\<rceil> * 1) / 4\<rfloor>"
    unfolding c by simp
  with 1 s show ?thesis by blast
qed

theorem optimizer_step_count_witness:
  "\<exists>cs silo oa. train_from_scratch example_collaborators [] = Inr cs
     \<and> [a. Initialize_optimizer a \<leftarrow> cs] = [oa]
     \<and> oa_n_batches oa = 50
     \<and> spec_optimizer_steps (oa_n_batches oa) (oa_n_epochs oa) (oa_grad_acc_steps oa) = Some 12
     \<and> (12::int) = \<lfloor>real_of_int (\<lceil>real 6000 / (60 * real 2)\<rceil> * 1) / 4\<rfloor>"
proof -
  obtain cs where cs: "train_from_scratch example_collaborators [] = Inr cs"
    using train_from_scratch_default by blast
  have ws: "0 < (2::nat)" by simp
  have h: "\<forall>s. 0 < silo_batch_size s \<longrightarrow>
      spec_n_batches 6000 (silo_batch_size s) 2 = Some (loader_len example_collaborators s ''train'')"
    by (simp add: spec_n_batches_def example_collaborators_def)
  from optimizer_step_count [OF cs ws h] obtain silo oa steps where r:
     "silo_batch_size silo = 60"
     "[a. Initialize_optimizer a \<leftarrow> cs] = [oa]"
     "oa_n_batches oa = loader_len example_collaborators silo ''train''"
     "spec_optimizer_steps (oa_n_batches oa) (oa_n_epochs oa) (oa_grad_acc_steps oa) = Some steps"
     "int steps = \<lfloor>real_of_int (\<lceil>real 6000 / (60 * real 2)\<rceil> * 1) / 4\<rfloor>"
     "oa_n_epochs oa = 1" "oa_grad_acc_steps oa = 4"
    by blast
  have nb: "oa_n_batches oa = 50"
    using r(1,3) by (simp add: example_collaborators_def)
  have st: "steps = 12"
    using r(4,6,7) nb by (simp add: spec_optimizer_steps_def)
  show ?thesis using cs r(2,4,5) nb st by auto
qed

subsection \<open>The local rank\<close>



end
